theory Spec2Isabelle
  imports Main
begin

section \<open>autocompleteSyncModel: recipients, preferences and the session cache\<close>

text \<open>
  A shallow embedding of \<^verbatim>\<open>src/app/ui/services/autocompleteSyncModel.js\<close>.
  The module closes over one mutable object \<^verbatim>\<open>CACHE\<close> per message and over its
  injected services. Here the cache is passed in and returned, the services are the fields
  of a record of functions, every promise that may reject is a value of \<open>error + 'a\<close>,
  and every call of a service is written to a log, so that "is never invoked" is a
  statement about that log.
\<close>

subsection \<open>JavaScript values\<close>

text \<open>
  The values a property of a recipient can hold. An object, array or function is
  represented by its own enumerable properties, which is all that truthiness and object
  spread look at. Numbers are the integers (a non-integer number behaves like a non-zero
  one here, NaN like 0).
\<close>

datatype jsval =
    JUndefined
  | JNull
  | JBool bool
  | JNum int
  | JStr string
  | JObj "string \<Rightarrow> jsval option"

text \<open>\<^verbatim>\<open>!v\<close> is false exactly for the truthy values.\<close>

fun truthy :: "jsval \<Rightarrow> bool" where
  "truthy JUndefined = False"
| "truthy JNull = False"
| "truthy (JBool b) = b"
| "truthy (JNum n) = (n \<noteq> 0)"
| "truthy (JStr s) = (s \<noteq> [])"
| "truthy (JObj m) = True"

text \<open>The decimal numeral of an array index, as a property key.\<close>

fun decimal :: "nat \<Rightarrow> string" where
  "decimal n =
     (if n < 10 then [''0123456789'' ! n]
      else decimal (n div 10) @ [''0123456789'' ! (n mod 10)])"

declare decimal.simps [simp del]

text \<open>
  What \<^verbatim>\<open>{...v}\<close> copies: the own enumerable properties of an object, the
  characters of a string under their indices, and nothing for the other primitives.
\<close>

fun own_props :: "jsval \<Rightarrow> (string \<rightharpoonup> jsval)" where
  "own_props (JObj m) = m"
| "own_props (JStr s) = map_of (zip (map decimal [0..<length s]) (map (\<lambda>ch. JStr [ch]) s))"
| "own_props v = Map.empty"

subsection \<open>Recipients and preferences\<close>

text \<open>
  A recipient (\<^verbatim>\<open>email\<close> in the source) is a plain object \<^verbatim>\<open>{Address, Name, ...PGPInfo}\<close>.
  \<open>Address\<close> is its string-valued \<^verbatim>\<open>Address\<close> property and \<open>others\<close> holds its
  other own enumerable properties; \<open>props\<close> is the object it stands for.
\<close>

record email =
  Address :: string
  others :: "string \<rightharpoonup> jsval"

definition props :: "email \<Rightarrow> (string \<rightharpoonup> jsval)" where
  "props e = (others e)(''Address'' \<mapsto> JStr (Address e))"

text \<open>\<^verbatim>\<open>{...email, key: v}\<close> for a key other than \<^verbatim>\<open>Address\<close>.\<close>

definition with_prop :: "email \<Rightarrow> string \<Rightarrow> jsval \<Rightarrow> email" where
  "with_prop e key v = e\<lparr>others := (others e)(key \<mapsto> v)\<rparr>"

text \<open>
  \<^verbatim>\<open>{...cached, ...email}\<close>: the properties of \<open>cached\<close>, overridden by those of the
  recipient, whose \<^verbatim>\<open>Address\<close> always wins.
\<close>

definition spread_over :: "jsval \<Rightarrow> email \<Rightarrow> email" where
  "spread_over cached e = \<lparr>Address = Address e, others = own_props cached ++ others e\<rparr>"

text \<open>
  A preference record of the sendPreferences service: the two policy flags the module
  reads, and the rest of its properties, which only \<^verbatim>\<open>extendPGP\<close> looks at. A
  preference map is an object keyed by address: the list of its own enumerable
  properties, in the order \<^verbatim>\<open>Object.keys\<close> and \<^verbatim>\<open>_.toPairs\<close> enumerate them.
\<close>

record pref =
  primaryPinned :: bool
  isVerified :: bool
  settings :: "string \<rightharpoonup> jsval"

type_synonym prefmap = "(string \<times> pref) list"

definition Object_keys :: "prefmap \<Rightarrow> string list" where
  "Object_keys m = map fst m"

definition toPairs :: "prefmap \<Rightarrow> (string \<times> pref) list" where
  "toPairs m = m"

text \<open>\<^verbatim>\<open>_.difference(array, values)\<close> keeps the order and the repetitions of \<open>array\<close>.\<close>

definition difference :: "string list \<Rightarrow> string list \<Rightarrow> string list" where
  "difference array vals = filter (\<lambda>x. x \<notin> set vals) array"

subsection \<open>Services, their failures and the log of calls\<close>

datatype error = Error string

datatype call =
    SendPreferencesGet "string list"
  | Resign "string list"
  | Confirm "string list"
  | ExtendPGP email "pref option"
  | CheckTypoEmails string
  | KeyCacheIsInvalid string
  | CacheSet string email
  | CacheDelete string

text \<open>
  The injected services and the two imports that are not part of this file, as functions
  of their arguments: within the runs compared here a service answers the same request in
  the same way. \<open>Inl\<close> is a thrown exception or a rejected promise.
  \<open>REGEX_EMAIL_test\<close> is \<^verbatim>\<open>REGEX_EMAIL.test\<close>, \<open>sendPreferences_get addresses\<close> is
  \<^verbatim>\<open>sendPreferences.get(addresses, message, true)\<close>.
\<close>

record services =
  REGEX_EMAIL_test :: "string \<Rightarrow> bool"
  sendPreferences_get :: "string list \<Rightarrow> error + prefmap"
  autoPinPrimaryKeys_confirm :: "string list \<Rightarrow> error + bool"
  autoPinPrimaryKeys_resign :: "string list \<Rightarrow> error + bool"
  checkTypoEmails :: "string \<Rightarrow> error + bool"
  keyCache_isInvalid :: "string \<Rightarrow> error + bool"
  extendPGP :: "email \<Rightarrow> pref option \<Rightarrow> error + email"

text \<open>
  A computation that calls services: the calls it made, in order, and its outcome.
  \<open>await m f\<close> is \<^verbatim>\<open>const x = await m; f(x)\<close>: a failure of \<open>m\<close> ends the
  computation with the calls made so far.
\<close>

type_synonym 'a io = "call list \<times> (error + 'a)"

definition ret :: "'a \<Rightarrow> 'a io" where
  "ret x = ([], Inr x)"

definition await :: "'a io \<Rightarrow> ('a \<Rightarrow> 'b io) \<Rightarrow> 'b io" where
  "await m f =
     (case m of
        (calls, Inl e) \<Rightarrow> (calls, Inl e)
      | (calls, Inr x) \<Rightarrow> (case f x of (calls', r) \<Rightarrow> (calls @ calls', r)))"

subsection \<open>The policy resolver\<close>

definition handleMissingPrimaryKeys :: "services \<Rightarrow> prefmap \<Rightarrow> string list io" where
  "handleMissingPrimaryKeys sv preferencesMap =
     (if \<not> list_ex (\<lambda>b. \<not> b) (map (\<lambda>(adr, p). primaryPinned p) preferencesMap) then ret []
      else
        let pairs = toPairs preferencesMap;
            missingPrimaryKeys = map fst (filter (\<lambda>(adr, p). \<not> primaryPinned p) pairs)
        in await ([Confirm missingPrimaryKeys], autoPinPrimaryKeys_confirm sv missingPrimaryKeys)
             (\<lambda>pinned. if pinned then ret [] else ret missingPrimaryKeys))"

definition handleInvalidSigs :: "services \<Rightarrow> prefmap \<Rightarrow> string list io" where
  "handleInvalidSigs sv preferencesMap =
     (if \<not> list_ex (\<lambda>b. \<not> b) (map (\<lambda>(adr, p). isVerified p) preferencesMap) then ret []
      else
        let pairs = toPairs preferencesMap;
            invalidSigs = map fst (filter (\<lambda>(adr, p). \<not> isVerified p) pairs)
        in await ([Resign invalidSigs], autoPinPrimaryKeys_resign sv invalidSigs)
             (\<lambda>resigned. if resigned then ret [] else ret invalidSigs))"

definition handleInvalid :: "services \<Rightarrow> prefmap \<Rightarrow> string list io" where
  "handleInvalid sv sendPreferencesMap =
     await (handleInvalidSigs sv sendPreferencesMap) (\<lambda>invalidSigs.
     await (handleMissingPrimaryKeys sv sendPreferencesMap) (\<lambda>missingPrimaryKeys.
     ret (invalidSigs @ missingPrimaryKeys)))"

subsection \<open>The address validator and the enrichment pipeline\<close>

text \<open>
  \<^verbatim>\<open>!REGEX_EMAIL.test(Address) || checkTypoEmails(Address) || (await keyCache.isInvalid(Address))\<close>:
  \<^verbatim>\<open>||\<close> evaluates its right operand only when the left one is falsy.
\<close>

definition extendInvalid :: "services \<Rightarrow> email \<Rightarrow> email io" where
  "extendInvalid sv e =
     (let A = Address e in
      if \<not> REGEX_EMAIL_test sv A then ret (with_prop e ''invalid'' (JBool True))
      else
        await ([CheckTypoEmails A], checkTypoEmails sv A) (\<lambda>typo.
        if typo then ret (with_prop e ''invalid'' (JBool True))
        else
          await ([KeyCacheIsInvalid A], keyCache_isInvalid sv A) (\<lambda>invalid.
          ret (with_prop e ''invalid'' (JBool invalid)))))"

text \<open>
  \<^verbatim>\<open>emails.map(email => extendInvalid(extendPGP(email, sendPreferencesMap[email.Address])))\<close>
  runs synchronously, in list order, up to the first \<^verbatim>\<open>await\<close> of every
  \<^verbatim>\<open>extendInvalid\<close>, so all calls of the services are made in list order. An exception
  of \<^verbatim>\<open>extendPGP\<close> is thrown out of \<^verbatim>\<open>map\<close> and ends it; a failure inside the
  async \<^verbatim>\<open>extendInvalid\<close> only rejects that recipient's promise. The result is the
  list of the promises' outcomes, or the exception.
  \<open>map_of m (Address e)\<close> reads an own property of the map; \<open>sync\<close> only asks for
  addresses that are keys of the map.
\<close>

fun start_all :: "services \<Rightarrow> prefmap \<Rightarrow> email list \<Rightarrow> (error + email) list io" where
  "start_all sv m [] = ([], Inr [])"
| "start_all sv m (e # es) =
     (case extendPGP sv e (map_of m (Address e)) of
        Inl err \<Rightarrow> ([ExtendPGP e (map_of m (Address e))], Inl err)
      | Inr extended \<Rightarrow>
          (case extendInvalid sv extended of
             (calls, outcome) \<Rightarrow>
               (case start_all sv m es of
                  (calls', r) \<Rightarrow>
                    (ExtendPGP e (map_of m (Address e)) # calls @ calls',
                     case r of Inl err \<Rightarrow> Inl err | Inr outcomes \<Rightarrow> Inr (outcome # outcomes)))))"

text \<open>
  \<^verbatim>\<open>Promise.all\<close> fulfils with all values, in order, or rejects with the reason of
  one rejected promise: the one that settles first. When a service fails is not part of
  this model, which takes the first rejected promise in list order. The code can report
  another one: a promise rejected by an exception of \<^verbatim>\<open>checkTypoEmails\<close> is settled
  when it is created, before one that \<^verbatim>\<open>keyCache.isInvalid\<close> rejects later, also when
  it comes later in the list. The statements below only say that the error is the
  one of some failing recipient.
\<close>

fun promise_all :: "(error + 'a) list \<Rightarrow> error + 'a list" where
  "promise_all [] = Inr []"
| "promise_all (Inl err # ps) = Inl err"
| "promise_all (Inr x # ps) = (case promise_all ps of Inl err \<Rightarrow> Inl err | Inr xs \<Rightarrow> Inr (x # xs))"

definition extendAsync :: "services \<Rightarrow> email list \<Rightarrow> prefmap \<Rightarrow> email list io" where
  "extendAsync sv emails sendPreferencesMap =
     (case start_all sv sendPreferencesMap emails of
        (calls, Inl err) \<Rightarrow> (calls, Inl err)
      | (calls, Inr promises) \<Rightarrow> (calls, promise_all promises))"

text \<open>
  The error with which the enrichment of one recipient fails, if it does: the exception
  of \<^verbatim>\<open>extendPGP\<close>, or the reason for which \<^verbatim>\<open>extendInvalid\<close> rejects.
\<close>

definition task_error :: "services \<Rightarrow> prefmap \<Rightarrow> email \<Rightarrow> error option" where
  "task_error sv m e =
     (case extendPGP sv e (map_of m (Address e)) of
        Inl err \<Rightarrow> Some err
      | Inr extended \<Rightarrow>
          (case snd (extendInvalid sv extended) of
             Inl err \<Rightarrow> Some err
           | Inr enriched \<Rightarrow> None))"

subsection \<open>The session cache\<close>

text \<open>
  \<^verbatim>\<open>const CACHE = {}\<close> is an ordinary object, so it inherits from \<^verbatim>\<open>Object.prototype\<close>:
  \<^verbatim>\<open>CACHE[key]\<close> finds an own property first and the inherited ones after it, and
  \<^verbatim>\<open>__proto__\<close> is the inherited accessor of the object's prototype. A cache state
  maps every key other than \<^verbatim>\<open>__proto__\<close> to the recipient stored as that own
  property, and the key \<^verbatim>\<open>__proto__\<close> to the recipient that was assigned as the
  prototype, if one was: then the assignment \<^verbatim>\<open>CACHE[key] = email\<close> is a map update for
  every key, and \<^verbatim>\<open>delete CACHE[key]\<close> removes an own property and leaves the
  prototype alone. A record assigned as the prototype is taken to have no own property
  called \<^verbatim>\<open>__proto__\<close> (only \<^verbatim>\<open>JSON.parse\<close> or a computed key gives an object
  one), which would shadow the inherited accessor.
\<close>

type_synonym cache = "string \<rightharpoonup> email"

definition Object_prototype_names :: "string list" where
  "Object_prototype_names =
     [''constructor'', ''__defineGetter__'', ''__defineSetter__'', ''hasOwnProperty'',
      ''__lookupGetter__'', ''__lookupSetter__'', ''isPrototypeOf'', ''propertyIsEnumerable'',
      ''toString'', ''valueOf'', ''toLocaleString'']"

text \<open>
  A property inherited from \<^verbatim>\<open>Object.prototype\<close>: its methods are functions, which have
  no enumerable property of their own.
\<close>

definition Object_prototype_get :: "string \<Rightarrow> jsval" where
  "Object_prototype_get key =
     (if key \<in> set Object_prototype_names then JObj Map.empty else JUndefined)"

definition cache_get :: "cache \<Rightarrow> string \<Rightarrow> jsval" where
  "cache_get CACHE key =
     (case CACHE key of
        Some stored \<Rightarrow> JObj (props stored)
      | None \<Rightarrow>
          if key = ''__proto__'' then JObj Map.empty
          else
            (case CACHE ''__proto__'' of
               None \<Rightarrow> Object_prototype_get key
             | Some proto \<Rightarrow>
                 (case props proto key of
                    Some v \<Rightarrow> v
                  | None \<Rightarrow> Object_prototype_get key)))"

definition cache_set :: "cache \<Rightarrow> string \<Rightarrow> email \<Rightarrow> cache" where
  "cache_set CACHE key e = CACHE(key \<mapsto> e)"

definition cache_delete :: "string \<Rightarrow> cache \<Rightarrow> cache" where
  "cache_delete key CACHE = (if key = ''__proto__'' then CACHE else CACHE(key := None))"

definition extendFromCache :: "cache \<Rightarrow> email list \<Rightarrow> email list" where
  "extendFromCache CACHE list =
     map (\<lambda>e.
       let cached = cache_get CACHE (Address e) in
       if \<not> truthy cached then with_prop e ''loadCryptInfo'' (JBool True)
       else spread_over cached e) list"

text \<open>
  \<open>updateCache\<close> returns the writes it makes, in order, and the cache after them.
\<close>

definition updateCache :: "email list \<Rightarrow> string list \<Rightarrow> cache \<Rightarrow> call list \<times> cache" where
  "updateCache emailsToAdd emailsToRemove CACHE =
     (map (\<lambda>e. CacheSet (Address e) e) emailsToAdd @ map CacheDelete emailsToRemove,
      fold cache_delete emailsToRemove
        (fold (\<lambda>e C. cache_set C (Address e) e) emailsToAdd CACHE))"

text \<open>The entries of the log that are writes to the cache.\<close>

fun is_write :: "call \<Rightarrow> bool" where
  "is_write (CacheSet key e) = True"
| "is_write (CacheDelete key) = True"
| "is_write c = False"

subsection \<open>The sync orchestrator\<close>

record SyncResult =
  addressesToRemove :: "string list"
  failedAddresses :: "string list"

text \<open>
  \<open>sync\<close> returns the log of its calls and cache writes, the \<^verbatim>\<open>SyncResult\<close> or the
  error it rejects with, and the cache it leaves.
\<close>

definition sync :: "services \<Rightarrow> email list \<Rightarrow> cache \<Rightarrow> call list \<times> (error + SyncResult) \<times> cache" where
  "sync sv emails CACHE =
     (let addresses = map Address emails in
      case
        await ([SendPreferencesGet addresses], sendPreferences_get sv addresses) (\<lambda>sendPreferencesMap.
        let failed = difference addresses (Object_keys sendPreferencesMap) in
        await (handleInvalid sv sendPreferencesMap) (\<lambda>invalidAddresses.
        let toRemove = invalidAddresses @ failed;
            filteredEmails = filter (\<lambda>e. Address e \<notin> set toRemove) emails
        in
        await (extendAsync sv filteredEmails sendPreferencesMap) (\<lambda>extendedEmails.
        ret (extendedEmails, \<lparr>addressesToRemove = toRemove, failedAddresses = failed\<rparr>))))
      of
        (calls, Inl err) \<Rightarrow> (calls, Inl err, CACHE)
      | (calls, Inr (extendedEmails, result)) \<Rightarrow>
          (case updateCache extendedEmails (addressesToRemove result) CACHE of
             (writes, CACHE') \<Rightarrow> (calls @ writes, Inr result, CACHE')))"

subsection \<open>Example services and inputs\<close>

text \<open>
  Concrete services for the worked examples: an address is well-formed when it contains
  an \<^verbatim>\<open>@\<close>, the preference service answers with a fixed map, the user declines both
  prompts, no address is a typo or has an invalid key, and \<^verbatim>\<open>extendPGP\<close> attaches one
  property.
\<close>

definition example_services :: "prefmap \<Rightarrow> services" where
  "example_services m =
     \<lparr>REGEX_EMAIL_test = (\<lambda>a. CHR ''@'' \<in> set a),
      sendPreferences_get = (\<lambda>addresses. Inr m),
      autoPinPrimaryKeys_confirm = (\<lambda>addresses. Inr False),
      autoPinPrimaryKeys_resign = (\<lambda>addresses. Inr False),
      checkTypoEmails = (\<lambda>a. Inr False),
      keyCache_isInvalid = (\<lambda>a. Inr False),
      extendPGP = (\<lambda>e p. Inr (with_prop e ''isPgp'' (JBool (p \<noteq> None))))\<rparr>"

definition trusted :: pref where
  "trusted = \<lparr>primaryPinned = True, isVerified = True, settings = Map.empty\<rparr>"

definition untrusted :: pref where
  "untrusted = \<lparr>primaryPinned = False, isVerified = False, settings = Map.empty\<rparr>"

definition bare :: "string \<Rightarrow> email" where
  "bare a = \<lparr>Address = a, others = Map.empty\<rparr>"

section \<open>Properties\<close>

subsection \<open>Auxiliary facts\<close>

lemma await_Inl [simp]: "await (cs, Inl e) f = (cs, Inl e)"
  by (simp add: await_def)

lemma await_Inr [simp]: "await (cs, Inr x) f = (cs @ fst (f x), snd (f x))"
  by (simp add: await_def split: prod.splits)

lemma run_collapse: "fst (snd run) = r \<Longrightarrow> run = (fst run, r, snd (snd run))"
  by (cases run) auto

lemmas model_defs = sync_def handleInvalid_def handleInvalidSigs_def handleMissingPrimaryKeys_def
  extendAsync_def extendInvalid_def updateCache_def difference_def Object_keys_def toPairs_def
  ret_def cache_set_def cache_delete_def with_prop_def Let_def

lemmas example_defs = example_services_def trusted_def untrusted_def bare_def

text \<open>A successful run of \<open>sync\<close>, step by step.\<close>

lemma sync_Inr_iff:
  "sync sv emails C = (tr, Inr res, C') \<longleftrightarrow>
   (\<exists>m t1 inv t2 ext.
      sendPreferences_get sv (map Address emails) = Inr m \<and>
      handleInvalid sv m = (t1, Inr inv) \<and>
      extendAsync sv
        (filter (\<lambda>e. Address e \<notin> set (inv @ difference (map Address emails) (Object_keys m))) emails) m =
        (t2, Inr ext) \<and>
      res = \<lparr>addressesToRemove = inv @ difference (map Address emails) (Object_keys m),
              failedAddresses = difference (map Address emails) (Object_keys m)\<rparr> \<and>
      tr = SendPreferencesGet (map Address emails) # t1 @ t2 @
             fst (updateCache ext (inv @ difference (map Address emails) (Object_keys m)) C) \<and>
      C' = snd (updateCache ext (inv @ difference (map Address emails) (Object_keys m)) C))"
proof (cases "sendPreferences_get sv (map Address emails)")
  case (Inl err)
  then show ?thesis by (simp add: sync_def Let_def)
next
  case (Inr m)
  let ?failed = "difference (map Address emails) (Object_keys m)"
  obtain t1 r1 where h: "handleInvalid sv m = (t1, r1)" by (cases "handleInvalid sv m")
  show ?thesis
  proof (cases r1)
    case (Inl err)
    with Inr h show ?thesis by (simp add: sync_def Let_def)
  next
    case inv: (Inr inv)
    let ?filtered = "filter (\<lambda>e. Address e \<notin> set (inv @ ?failed)) emails"
    obtain t2 r2 where x: "extendAsync sv ?filtered m = (t2, r2)"
      by (cases "extendAsync sv ?filtered m")
    show ?thesis
    proof (cases r2)
      case (Inl err)
      with Inr h inv x show ?thesis by (simp add: sync_def Let_def)
    next
      case ext: (Inr ext)
      with Inr h inv x show ?thesis
        by (auto simp: sync_def Let_def ret_def split: prod.splits)
    qed
  qed
qed

text \<open>
  The scenario of the specification: \<^verbatim>\<open>a@x.com\<close> is fetched, pinned and verified,
  \<^verbatim>\<open>bad\<close> is not fetched.
\<close>

lemma example_run:
  "fst (snd (sync (example_services [(''a@x.com'', trusted)]) [bare ''a@x.com'', bare ''bad''] Map.empty)) =
   Inr \<lparr>addressesToRemove = [''bad''], failedAddresses = [''bad'']\<rparr>"
  by (simp add: model_defs example_defs)

text \<open>The same input when \<^verbatim>\<open>a@x.com\<close> is neither verified nor pinned and the user declines.\<close>

lemma example_run_untrusted:
  "fst (snd (sync (example_services [(''a@x.com'', untrusted)]) [bare ''a@x.com'', bare ''bad''] Map.empty)) =
   Inr \<lparr>addressesToRemove = [''a@x.com'', ''a@x.com'', ''bad''], failedAddresses = [''bad'']\<rparr>"
  by (simp add: model_defs example_defs)

lemma example_handleInvalid_untrusted:
  "handleInvalid (example_services [(''a@x.com'', untrusted)]) [(''a@x.com'', untrusted)] =
   ([Resign [''a@x.com''], Confirm [''a@x.com'']], Inr [''a@x.com'', ''a@x.com''])"
  by (simp add: model_defs example_defs)

subsection \<open>The addresses that failed to fetch\<close>

text \<open>
  C1. Whenever \<open>sync\<close> returns a result, its \<open>failedAddresses\<close> are, as a set, the
  addresses of the input minus the keys of the preference map that the service returned
  for this call.
\<close>

theorem sync_failedAddresses:
  assumes "sync sv emails CACHE = (calls, Inr result, CACHE')"
      and "sendPreferences_get sv (map Address emails) = Inr sendPreferencesMap"
  shows "set (failedAddresses result) =
         set (map Address emails) - set (Object_keys sendPreferencesMap)"
  using assms by (auto simp: sync_Inr_iff difference_def)

theorem sync_failedAddresses_witness:
  "set (failedAddresses \<lparr>addressesToRemove = [''bad''], failedAddresses = [''bad'']\<rparr>) =
   set (map Address [bare ''a@x.com'', bare ''bad'']) - set (Object_keys [(''a@x.com'', trusted)])"
  by (rule sync_failedAddresses [OF run_collapse [OF example_run]])
     (simp add: example_services_def)

subsection \<open>The addresses to remove\<close>

text \<open>
  C2. Whenever \<open>sync\<close> returns a result, its \<open>addressesToRemove\<close> is the list returned
  by \<open>handleInvalid\<close> followed by \<open>failedAddresses\<close>; hence every failed address is among
  the addresses to remove, and nothing is deduplicated: an address occurs as often as in
  the two lists together.
\<close>

theorem sync_addressesToRemove:
  assumes "sync sv emails CACHE = (calls, Inr result, CACHE')"
      and "sendPreferences_get sv (map Address emails) = Inr sendPreferencesMap"
      and "handleInvalid sv sendPreferencesMap = (calls', Inr invalidAddresses)"
  shows "addressesToRemove result = invalidAddresses @ failedAddresses result \<and>
         set (failedAddresses result) \<subseteq> set (addressesToRemove result) \<and>
         (\<forall>a. count_list (addressesToRemove result) a =
               count_list invalidAddresses a + count_list (failedAddresses result) a)"
  using assms by (auto simp: sync_Inr_iff)

theorem sync_addressesToRemove_witness:
  "addressesToRemove \<lparr>addressesToRemove = [''a@x.com'', ''a@x.com'', ''bad''], failedAddresses = [''bad'']\<rparr> =
     [''a@x.com'', ''a@x.com''] @
     failedAddresses \<lparr>addressesToRemove = [''a@x.com'', ''a@x.com'', ''bad''], failedAddresses = [''bad'']\<rparr> \<and>
   count_list (addressesToRemove
      \<lparr>addressesToRemove = [''a@x.com'', ''a@x.com'', ''bad''], failedAddresses = [''bad'']\<rparr>) ''a@x.com'' = 2"
  using sync_addressesToRemove [OF run_collapse [OF example_run_untrusted] _ example_handleInvalid_untrusted]
  by (simp add: example_services_def)

subsection \<open>The policy resolver\<close>

lemma list_ex_Not_map: "list_ex (\<lambda>b. \<not> b) (map f xs) \<longleftrightarrow> \<not> list_all f xs"
  by (induction xs) auto

lemma count_list_pos: "x \<in> set xs \<Longrightarrow> 0 < count_list xs x"
  by (induction xs) auto

lemma handleInvalidSigs_eq:
  assumes "\<not> list_all (\<lambda>(adr, p). isVerified p) m \<Longrightarrow>
           autoPinPrimaryKeys_resign sv (map fst (filter (\<lambda>(adr, p). \<not> isVerified p) m)) = Inr resigned"
  shows "handleInvalidSigs sv m =
     ((if list_all (\<lambda>(adr, p). isVerified p) m then []
       else [Resign (map fst (filter (\<lambda>(adr, p). \<not> isVerified p) m))]),
      Inr (if list_all (\<lambda>(adr, p). isVerified p) m \<or> resigned then []
           else map fst (filter (\<lambda>(adr, p). \<not> isVerified p) m)))"
  using assms
  by (simp add: handleInvalidSigs_def list_ex_Not_map toPairs_def ret_def Let_def)

lemma handleMissingPrimaryKeys_eq:
  assumes "\<not> list_all (\<lambda>(adr, p). primaryPinned p) m \<Longrightarrow>
           autoPinPrimaryKeys_confirm sv (map fst (filter (\<lambda>(adr, p). \<not> primaryPinned p) m)) = Inr pinned"
  shows "handleMissingPrimaryKeys sv m =
     ((if list_all (\<lambda>(adr, p). primaryPinned p) m then []
       else [Confirm (map fst (filter (\<lambda>(adr, p). \<not> primaryPinned p) m))]),
      Inr (if list_all (\<lambda>(adr, p). primaryPinned p) m \<or> pinned then []
           else map fst (filter (\<lambda>(adr, p). \<not> primaryPinned p) m)))"
  using assms
  by (simp add: handleMissingPrimaryKeys_def list_ex_Not_map toPairs_def ret_def Let_def)

text \<open>
  C3. Let \<open>invalidSigs\<close> be the addresses of the records that are not verified and
  \<open>missingPrimaryKeys\<close> those of the records whose primary key is not pinned, both in the
  order of the map, and let each prompt answer when it is consulted. Then \<open>handleInvalid\<close>
  returns \<open>s @ k\<close>, signature issues first: \<open>s\<close> is empty when every record is verified,
  and then \<^verbatim>\<open>resign\<close> is not called; otherwise \<^verbatim>\<open>resign\<close> is called once with
  \<open>invalidSigs\<close>, and \<open>s\<close> is empty when it answers true and \<open>invalidSigs\<close> when it answers
  false. \<open>k\<close> is the same for \<open>primaryPinned\<close> and \<^verbatim>\<open>confirm\<close>. Nothing is
  deduplicated: when both prompts answer false, an address that fails both checks
  occurs at least twice in the result.
\<close>

theorem handleInvalid_result:
  assumes "invalidSigs = map fst (filter (\<lambda>(adr, p). \<not> isVerified p) m)"
      and "missingPrimaryKeys = map fst (filter (\<lambda>(adr, p). \<not> primaryPinned p) m)"
      and "\<not> list_all (\<lambda>(adr, p). isVerified p) m \<Longrightarrow>
           autoPinPrimaryKeys_resign sv invalidSigs = Inr resigned"
      and "\<not> list_all (\<lambda>(adr, p). primaryPinned p) m \<Longrightarrow>
           autoPinPrimaryKeys_confirm sv missingPrimaryKeys = Inr pinned"
      and "s = (if list_all (\<lambda>(adr, p). isVerified p) m \<or> resigned then [] else invalidSigs)"
      and "k = (if list_all (\<lambda>(adr, p). primaryPinned p) m \<or> pinned then [] else missingPrimaryKeys)"
  shows "handleInvalid sv m =
           ((if list_all (\<lambda>(adr, p). isVerified p) m then [] else [Resign invalidSigs]) @
            (if list_all (\<lambda>(adr, p). primaryPinned p) m then [] else [Confirm missingPrimaryKeys]),
            Inr (s @ k)) \<and>
         (\<forall>a p. (a, p) \<in> set m \<and> \<not> isVerified p \<and> \<not> primaryPinned p \<and> \<not> resigned \<and> \<not> pinned
            \<longrightarrow> 2 \<le> count_list (s @ k) a)"
proof
  have sigs: "handleInvalidSigs sv m =
     ((if list_all (\<lambda>(adr, p). isVerified p) m then [] else [Resign invalidSigs]), Inr s)"
    using assms(3) unfolding assms(1,5) by (rule handleInvalidSigs_eq)
  have keys: "handleMissingPrimaryKeys sv m =
     ((if list_all (\<lambda>(adr, p). primaryPinned p) m then [] else [Confirm missingPrimaryKeys]), Inr k)"
    using assms(4) unfolding assms(2,6) by (rule handleMissingPrimaryKeys_eq)
  show "handleInvalid sv m =
           ((if list_all (\<lambda>(adr, p). isVerified p) m then [] else [Resign invalidSigs]) @
            (if list_all (\<lambda>(adr, p). primaryPinned p) m then [] else [Confirm missingPrimaryKeys]),
            Inr (s @ k))"
    by (simp add: handleInvalid_def sigs keys ret_def)
next
  show "\<forall>a p. (a, p) \<in> set m \<and> \<not> isVerified p \<and> \<not> primaryPinned p \<and> \<not> resigned \<and> \<not> pinned
            \<longrightarrow> 2 \<le> count_list (s @ k) a"
  proof (intro allI impI)
    fix a p
    assume h: "(a, p) \<in> set m \<and> \<not> isVerified p \<and> \<not> primaryPinned p \<and> \<not> resigned \<and> \<not> pinned"
    then have nv: "\<not> list_all (\<lambda>(adr, p). isVerified p) m"
      and np: "\<not> list_all (\<lambda>(adr, p). primaryPinned p) m"
      by (auto simp: list_all_iff)
    from h have "a \<in> set invalidSigs" "a \<in> set missingPrimaryKeys"
      unfolding assms(1,2) by force+
    then have "0 < count_list s a" "0 < count_list k a"
      using h nv np unfolding assms(5,6) by (simp_all add: count_list_pos)
    then show "2 \<le> count_list (s @ k) a" by simp
  qed
qed

theorem handleInvalid_result_witness:
  "handleInvalid (example_services []) [(''a@x.com'', untrusted), (''b@x.com'', trusted)] =
     ([Resign [''a@x.com''], Confirm [''a@x.com'']], Inr ([''a@x.com''] @ [''a@x.com''])) \<and>
   2 \<le> count_list ([''a@x.com''] @ [''a@x.com'']) ''a@x.com''"
proof -
  let ?m = "[(''a@x.com'', untrusted), (''b@x.com'', trusted)]"
  have 1: "[''a@x.com''] = map fst (filter (\<lambda>(adr, p). \<not> isVerified p) ?m)"
    and 2: "[''a@x.com''] = map fst (filter (\<lambda>(adr, p). \<not> primaryPinned p) ?m)"
    and 3: "autoPinPrimaryKeys_resign (example_services []) [''a@x.com''] = Inr False"
    and 4: "autoPinPrimaryKeys_confirm (example_services []) [''a@x.com''] = Inr False"
    and 5: "[''a@x.com''] =
            (if list_all (\<lambda>(adr, p). isVerified p) ?m \<or> False then [] else [''a@x.com''])"
    and 6: "[''a@x.com''] =
            (if list_all (\<lambda>(adr, p). primaryPinned p) ?m \<or> False then [] else [''a@x.com''])"
    by (simp_all add: example_defs)
  have 7: "(''a@x.com'', untrusted) \<in> set ?m \<and> \<not> isVerified untrusted \<and>
           \<not> primaryPinned untrusted \<and> \<not> False \<and> \<not> False"
    by (simp add: untrusted_def)
  note r = handleInvalid_result [OF 1 2 3 4 5 6]
  from r have "handleInvalid (example_services []) ?m =
     ([Resign [''a@x.com''], Confirm [''a@x.com'']], Inr ([''a@x.com''] @ [''a@x.com'']))"
    by (simp add: example_defs)
  moreover from r 7 have "2 \<le> count_list ([''a@x.com''] @ [''a@x.com'']) ''a@x.com''"
    by blast
  ultimately show ?thesis by blast
qed

subsection \<open>The address validator\<close>

text \<open>
  C4. For a recipient with address \<open>A\<close>, when the services that are consulted answer,
  \<open>extendInvalid\<close> returns the recipient with \<^verbatim>\<open>invalid\<close> set, and \<^verbatim>\<open>invalid\<close> is
  true exactly when \<open>A\<close> fails the pattern, or the typo checker flags it, or the key
  cache reports it invalid. The checks run in that order and stop at the first that
  marks \<open>A\<close> invalid: the typo checker is called only when the pattern matches, and the
  key cache only when the pattern matches and the typo checker answers false.
\<close>

theorem extendInvalid_invalid:
  assumes "A = Address e"
      and "REGEX_EMAIL_test sv A \<Longrightarrow> checkTypoEmails sv A = Inr typo"
      and "REGEX_EMAIL_test sv A \<Longrightarrow> \<not> typo \<Longrightarrow> keyCache_isInvalid sv A = Inr keyInvalid"
      and "invalid = (\<not> REGEX_EMAIL_test sv A \<or> typo \<or> keyInvalid)"
  shows "extendInvalid sv e =
           ((if \<not> REGEX_EMAIL_test sv A then []
             else if typo then [CheckTypoEmails A]
             else [CheckTypoEmails A, KeyCacheIsInvalid A]),
            Inr (with_prop e ''invalid'' (JBool invalid))) \<and>
         (others (with_prop e ''invalid'' (JBool invalid)) ''invalid'' = Some (JBool True)
            \<longleftrightarrow> \<not> REGEX_EMAIL_test sv A \<or> typo \<or> keyInvalid)"
proof (cases "REGEX_EMAIL_test sv A")
  case False
  with assms(1,4) show ?thesis
    by (simp add: extendInvalid_def with_prop_def ret_def Let_def)
next
  case True
  note t = assms(2) [OF True]
  show ?thesis
  proof (cases typo)
    case True
    with \<open>REGEX_EMAIL_test sv A\<close> t assms(1,4) show ?thesis
      by (simp add: extendInvalid_def with_prop_def ret_def Let_def)
  next
    case False
    note k = assms(3) [OF \<open>REGEX_EMAIL_test sv A\<close> False]
    with \<open>REGEX_EMAIL_test sv A\<close> False t assms(1,4) show ?thesis
      by (simp add: extendInvalid_def with_prop_def ret_def Let_def)
  qed
qed

theorem extendInvalid_invalid_witness:
  "extendInvalid (example_services [] \<lparr>keyCache_isInvalid := \<lambda>a. Inr True\<rparr>) (bare ''a@x.com'') =
     ([CheckTypoEmails ''a@x.com'', KeyCacheIsInvalid ''a@x.com''],
      Inr (with_prop (bare ''a@x.com'') ''invalid'' (JBool True))) \<and>
   extendInvalid (example_services []) (bare ''bad'') =
     ([], Inr (with_prop (bare ''bad'') ''invalid'' (JBool True)))"
proof -
  let ?sv = "example_services [] \<lparr>keyCache_isInvalid := \<lambda>a. Inr True\<rparr>"
  have 1: "''a@x.com'' = Address (bare ''a@x.com'')"
    and 2: "checkTypoEmails ?sv ''a@x.com'' = Inr False"
    and 3: "keyCache_isInvalid ?sv ''a@x.com'' = Inr True"
    and 4: "True = (\<not> REGEX_EMAIL_test ?sv ''a@x.com'' \<or> False \<or> True)"
    and 5: "REGEX_EMAIL_test ?sv ''a@x.com''"
    by (simp_all add: example_defs)
  have 6: "''bad'' = Address (bare ''bad'')"
    and 7: "\<not> REGEX_EMAIL_test (example_services []) ''bad''"
    and 8: "True = (\<not> REGEX_EMAIL_test (example_services []) ''bad'' \<or> False \<or> False)"
    by (simp_all add: example_defs)
  from extendInvalid_invalid [OF 1 2 3 4] 5
  have "extendInvalid ?sv (bare ''a@x.com'') =
     ([CheckTypoEmails ''a@x.com'', KeyCacheIsInvalid ''a@x.com''],
      Inr (with_prop (bare ''a@x.com'') ''invalid'' (JBool True)))"
    by simp
  moreover from extendInvalid_invalid [OF 6 _ _ 8] 7
  have "extendInvalid (example_services []) (bare ''bad'') =
     ([], Inr (with_prop (bare ''bad'') ''invalid'' (JBool True)))"
    by simp
  ultimately show ?thesis by blast
qed

subsection \<open>Lookups in the session cache\<close>

lemma props_spread_over: "props (spread_over (JObj (props r)) e) = props r ++ props e"
  by (auto simp: props_def spread_over_def fun_eq_iff map_add_def split: option.splits)

lemma cache_get_stored: "CACHE key = Some r \<Longrightarrow> cache_get CACHE key = JObj (props r)"
  by (simp add: cache_get_def)

lemma cache_get_absent:
  assumes "CACHE key = None" and "CACHE ''__proto__'' = None"
      and "key \<notin> set Object_prototype_names" and "key \<noteq> ''__proto__''"
  shows "cache_get CACHE key = JUndefined"
  using assms by (simp add: cache_get_def Object_prototype_get_def)

lemma extendFromCache_length: "length (extendFromCache CACHE list) = length list"
  by (simp add: extendFromCache_def)

lemma extendFromCache_nth:
  "i < length list \<Longrightarrow>
   extendFromCache CACHE list ! i =
     (if \<not> truthy (cache_get CACHE (Address (list ! i)))
      then with_prop (list ! i) ''loadCryptInfo'' (JBool True)
      else spread_over (cache_get CACHE (Address (list ! i))) (list ! i))"
  by (simp add: extendFromCache_def Let_def)

text \<open>
  The lookup as its documentation describes it, for the keys that \<^verbatim>\<open>CACHE\<close> does not
  inherit: one output per input, in order; a recipient with a stored record gets that
  record's properties overridden by its own, and a recipient without one keeps its
  properties and gets \<^verbatim>\<open>loadCryptInfo: true\<close>.
\<close>

lemma extendFromCache_documented:
  assumes "i < length list" and "e = list ! i"
  shows "length (extendFromCache CACHE list) = length list"
    and "CACHE (Address e) = Some r \<Longrightarrow>
         props (extendFromCache CACHE list ! i) = props r ++ props e"
    and "CACHE (Address e) = None \<Longrightarrow> CACHE ''__proto__'' = None \<Longrightarrow>
         Address e \<notin> set Object_prototype_names \<Longrightarrow> Address e \<noteq> ''__proto__'' \<Longrightarrow>
         extendFromCache CACHE list ! i = with_prop e ''loadCryptInfo'' (JBool True)"
  using assms
  by (simp_all add: extendFromCache_length extendFromCache_nth cache_get_stored
      cache_get_absent props_spread_over)

text \<open>
  C5. The claim fails for an address that names a property \<^verbatim>\<open>CACHE\<close> inherits from
  \<^verbatim>\<open>Object.prototype\<close>. In the empty cache \<^verbatim>\<open>constructor\<close> has no entry, yet
  \<^verbatim>\<open>CACHE['constructor']\<close> is the inherited function, which is truthy: the recipient
  takes the branch for cached addresses and comes back without \<^verbatim>\<open>loadCryptInfo\<close>.
\<close>

theorem extendFromCache_inherited_key:
  "extendFromCache Map.empty [bare ''constructor''] = [bare ''constructor''] \<and>
   props (bare ''constructor'') ''loadCryptInfo'' = None"
  by (simp add: extendFromCache_def cache_get_def Object_prototype_get_def
      Object_prototype_names_def spread_over_def bare_def props_def)

subsection \<open>Updating the session cache\<close>

lemma fold_cache_set_other:
  "A \<notin> Address ` set es \<Longrightarrow> fold (\<lambda>e C. cache_set C (Address e) e) es CACHE A = CACHE A"
  by (induction es arbitrary: CACHE) (auto simp: cache_set_def)

lemma fold_cache_set_last:
  assumes "Address r \<notin> Address ` set after"
  shows "fold (\<lambda>e C. cache_set C (Address e) e) (before @ r # after) CACHE (Address r) = Some r"
proof -
  have "fold (\<lambda>e C. cache_set C (Address e) e) (before @ r # after) CACHE (Address r) =
        cache_set (fold (\<lambda>e C. cache_set C (Address e) e) before CACHE) (Address r) r (Address r)"
    using assms by (simp add: fold_cache_set_other)
  then show ?thesis by (simp add: cache_set_def)
qed

lemma fold_cache_delete_other:
  "A \<notin> set rs \<Longrightarrow> fold cache_delete rs CACHE A = CACHE A"
  by (induction rs arbitrary: CACHE) (auto simp: cache_delete_def)

lemma fold_cache_delete_removed:
  "A \<in> set rs \<Longrightarrow> A \<noteq> ''__proto__'' \<Longrightarrow> fold cache_delete rs CACHE A = None"
proof (induction rs arbitrary: CACHE)
  case Nil
  then show ?case by simp
next
  case (Cons a rs)
  show ?case
  proof (cases "A \<in> set rs")
    case True
    with Cons show ?thesis by simp
  next
    case False
    with Cons.prems have "a = A" by simp
    with False have "fold cache_delete (a # rs) CACHE A = cache_delete A CACHE A"
      by (simp add: fold_cache_delete_other)
    moreover from Cons.prems have "cache_delete A CACHE A = None"
      by (simp add: cache_delete_def)
    ultimately show ?thesis by (simp only:)
  qed
qed





subsection \<open>The enrichment pipeline\<close>

lemma extendInvalid_Inr:
  assumes "snd (extendInvalid sv e) = Inr x"
  shows "x = with_prop e ''invalid''
           (JBool (\<not> REGEX_EMAIL_test sv (Address e) \<or> checkTypoEmails sv (Address e) = Inr True \<or>
                   keyCache_isInvalid sv (Address e) = Inr True))"
proof (cases "REGEX_EMAIL_test sv (Address e)")
  case False
  with assms show ?thesis by (simp add: extendInvalid_def ret_def Let_def)
next
  case True
  show ?thesis
  proof (cases "checkTypoEmails sv (Address e)")
    case (Inl err)
    with True assms show ?thesis by (simp add: extendInvalid_def ret_def Let_def)
  next
    case typo: (Inr typo)
    show ?thesis
    proof (cases typo)
      case True
      with \<open>REGEX_EMAIL_test sv (Address e)\<close> typo assms show ?thesis
        by (simp add: extendInvalid_def ret_def Let_def)
    next
      case False
      with \<open>REGEX_EMAIL_test sv (Address e)\<close> typo assms show ?thesis
        by (cases "keyCache_isInvalid sv (Address e)")
           (auto simp: extendInvalid_def ret_def Let_def)
    qed
  qed
qed

text \<open>What one more recipient at the front does to the outcome of \<open>extendAsync\<close>.\<close>

lemma extendAsync_Cons:
  "snd (extendAsync sv (e # es) m) =
     (case extendPGP sv e (map_of m (Address e)) of
        Inl err \<Rightarrow> Inl err
      | Inr extended \<Rightarrow>
          (case snd (start_all sv m es) of
             Inl err \<Rightarrow> Inl err
           | Inr ps \<Rightarrow>
               (case snd (extendInvalid sv extended) of
                  Inl err \<Rightarrow> Inl err
                | Inr x \<Rightarrow>
                    (case snd (extendAsync sv es m) of
                       Inl err \<Rightarrow> Inl err
                     | Inr xs \<Rightarrow> Inr (x # xs)))))"
  by (simp add: extendAsync_def split: sum.splits prod.splits)

lemma extendAsync_start_all:
  "snd (start_all sv m es) = Inl err \<Longrightarrow> snd (extendAsync sv es m) = Inl err"
  by (cases "start_all sv m es") (auto simp: extendAsync_def)

lemma extendAsync_Inl:
  "snd (extendAsync sv es m) = Inl err \<Longrightarrow> \<exists>e \<in> set es. task_error sv m e = Some err"
proof (induction es)
  case Nil
  then show ?case by (simp add: extendAsync_def)
next
  case (Cons e es)
  show ?case
  proof (cases "extendPGP sv e (map_of m (Address e))")
    case (Inl err0)
    with Cons.prems have "task_error sv m e = Some err"
      by (simp add: extendAsync_Cons task_error_def)
    then show ?thesis by simp
  next
    case pgp: (Inr extended)
    show ?thesis
    proof (cases "snd (start_all sv m es)")
      case (Inl err0)
      with pgp Cons.prems have "snd (extendAsync sv es m) = Inl err"
        by (simp add: extendAsync_Cons extendAsync_start_all)
      with Cons.IH show ?thesis by auto
    next
      case started: (Inr ps)
      show ?thesis
      proof (cases "snd (extendInvalid sv extended)")
        case (Inl err0)
        with pgp started Cons.prems have "task_error sv m e = Some err"
          by (simp add: extendAsync_Cons task_error_def)
        then show ?thesis by simp
      next
        case (Inr x)
        with pgp started Cons.prems have "snd (extendAsync sv es m) = Inl err"
          by (simp add: extendAsync_Cons split: sum.splits)
        with Cons.IH show ?thesis by auto
      qed
    qed
  qed
qed

lemma extendAsync_Inr:
  "snd (extendAsync sv es m) = Inr xs \<Longrightarrow>
   list_all2 (\<lambda>e x. \<exists>extended. extendPGP sv e (map_of m (Address e)) = Inr extended \<and>
                      snd (extendInvalid sv extended) = Inr x) es xs"
proof (induction es arbitrary: xs)
  case Nil
  then show ?case by (simp add: extendAsync_def)
next
  case (Cons e es)
  then show ?case
    by (auto simp: extendAsync_Cons split: sum.splits)
qed

lemma extendAsync_no_error:
  assumes "snd (extendAsync sv es m) = Inr xs" and "e \<in> set es"
  shows "task_error sv m e = None"
proof -
  from extendAsync_Inr [OF assms(1)] assms(2)
  obtain x extended where "extendPGP sv e (map_of m (Address e)) = Inr extended"
    and "snd (extendInvalid sv extended) = Inr x"
    by (auto simp: list_all2_conv_all_nth in_set_conv_nth)
  then show ?thesis by (simp add: task_error_def)
qed


subsection \<open>Failure of an enrichment task\<close>

lemma handleInvalid_no_write: "list_all (\<lambda>c. \<not> is_write c) (fst (handleInvalid sv m))"
  by (simp add: handleInvalid_def handleInvalidSigs_def handleMissingPrimaryKeys_def
      await_def ret_def Let_def split: sum.splits prod.splits)

lemma extendInvalid_no_write: "list_all (\<lambda>c. \<not> is_write c) (fst (extendInvalid sv e))"
  by (simp add: extendInvalid_def await_def ret_def Let_def split: sum.splits prod.splits)

lemma start_all_no_write: "list_all (\<lambda>c. \<not> is_write c) (fst (start_all sv m es))"
proof (induction es)
  case Nil
  then show ?case by simp
next
  case (Cons e es)
  show ?case
  proof (cases "extendPGP sv e (map_of m (Address e))")
    case (Inl err)
    then show ?thesis by simp
  next
    case (Inr extended)
    with Cons extendInvalid_no_write [of sv extended] show ?thesis
      by (cases "extendInvalid sv extended"; cases "start_all sv m es") simp
  qed
qed

lemma extendAsync_no_write: "list_all (\<lambda>c. \<not> is_write c) (fst (extendAsync sv es m))"
  using start_all_no_write [of sv m es]
  by (cases "start_all sv m es") (auto simp: extendAsync_def split: sum.splits)

text \<open>
  C6. Let the preference service and the policy resolver succeed, and let the enrichment
  of a recipient that is not removed fail. Then \<open>sync\<close> fails with the error of a failing
  enrichment task, it makes no write to the cache, and the cache it leaves is the cache
  it started from.
\<close>

theorem sync_enrichment_failure:
  assumes "sendPreferences_get sv (map Address emails) = Inr m"
      and "handleInvalid sv m = (calls1, Inr invalidAddresses)"
      and "toRemove = invalidAddresses @ difference (map Address emails) (Object_keys m)"
      and "e \<in> set emails"
      and "Address e \<notin> set toRemove"
      and "task_error sv m e = Some err0"
  shows "\<exists>calls err.
           sync sv emails CACHE = (calls, Inl err, CACHE) \<and>
           (\<exists>e'. e' \<in> set emails \<and> Address e' \<notin> set toRemove \<and> task_error sv m e' = Some err) \<and>
           list_all (\<lambda>c. \<not> is_write c) calls"
proof -
  let ?filtered = "filter (\<lambda>e. Address e \<notin> set toRemove) emails"
  obtain calls2 r where run: "extendAsync sv ?filtered m = (calls2, r)"
    by (cases "extendAsync sv ?filtered m")
  from assms(4,5) have member: "e \<in> set ?filtered" by simp
  have "\<exists>err. r = Inl err"
  proof (cases r)
    case (Inl err)
    then show ?thesis by simp
  next
    case (Inr xs)
    with run have "snd (extendAsync sv ?filtered m) = Inr xs" by simp
    from extendAsync_no_error [OF this member] assms(6) show ?thesis by simp
  qed
  then obtain err where r: "r = Inl err" ..
  with run have "snd (extendAsync sv ?filtered m) = Inl err" by simp
  from extendAsync_Inl [OF this]
  obtain e' where e': "e' \<in> set emails" "Address e' \<notin> set toRemove" "task_error sv m e' = Some err"
    by auto
  have "sync sv emails CACHE = (SendPreferencesGet (map Address emails) # calls1 @ calls2, Inl err, CACHE)"
    using assms(1,2) run r unfolding assms(3)
    by (simp add: sync_def Let_def)
  moreover have "list_all (\<lambda>c. \<not> is_write c) (SendPreferencesGet (map Address emails) # calls1 @ calls2)"
    using handleInvalid_no_write [of sv m] extendAsync_no_write [of sv ?filtered m] assms(2) run
    by simp
  ultimately show ?thesis using e' by blast
qed

theorem sync_enrichment_failure_witness:
  "\<exists>calls err.
     sync (example_services [(''a@x.com'', trusted)] \<lparr>keyCache_isInvalid := \<lambda>a. Inl (Error ''offline'')\<rparr>)
       [bare ''a@x.com'', bare ''bad''] [''old@x.com'' \<mapsto> bare ''old@x.com''] =
       (calls, Inl err, [''old@x.com'' \<mapsto> bare ''old@x.com'']) \<and>
     (\<exists>e'. e' \<in> set [bare ''a@x.com'', bare ''bad''] \<and> Address e' \<notin> set ([] @ [''bad'']) \<and>
        task_error (example_services [(''a@x.com'', trusted)] \<lparr>keyCache_isInvalid := \<lambda>a. Inl (Error ''offline'')\<rparr>)
          [(''a@x.com'', trusted)] e' = Some err) \<and>
     list_all (\<lambda>c. \<not> is_write c) calls"
proof -
  let ?sv = "example_services [(''a@x.com'', trusted)] \<lparr>keyCache_isInvalid := \<lambda>a. Inl (Error ''offline'')\<rparr>"
  let ?m = "[(''a@x.com'', trusted)]"
  have 1: "sendPreferences_get ?sv (map Address [bare ''a@x.com'', bare ''bad'']) = Inr ?m"
    by (simp add: example_defs)
  have 2: "handleInvalid ?sv ?m = ([], Inr [])"
    by (simp add: model_defs example_defs)
  have 3: "[] @ [''bad''] = [] @ difference (map Address [bare ''a@x.com'', bare ''bad'']) (Object_keys ?m)"
    by (simp add: model_defs example_defs)
  have 4: "bare ''a@x.com'' \<in> set [bare ''a@x.com'', bare ''bad'']"
    by simp
  have 5: "Address (bare ''a@x.com'') \<notin> set ([] @ [''bad''])"
    by (simp add: bare_def)
  have 6: "task_error ?sv ?m (bare ''a@x.com'') = Some (Error ''offline'')"
    by (simp add: task_error_def model_defs example_defs)
  show ?thesis
    by (rule sync_enrichment_failure [OF 1 2 3 4 5 6])
qed

subsection \<open>Idempotence\<close>

lemma fold_cache_set_eq:
  "fold (\<lambda>e C. cache_set C (Address e) e) es CACHE =
   CACHE ++ map_of (rev (map (\<lambda>e. (Address e, e)) es))"
proof (induction es arbitrary: CACHE)
  case Nil
  then show ?case by simp
next
  case (Cons e es)
  let ?M = "map_of (rev (map (\<lambda>e. (Address e, e)) es))"
  have "fold (\<lambda>e C. cache_set C (Address e) e) (e # es) CACHE =
        fold (\<lambda>e C. cache_set C (Address e) e) es (cache_set CACHE (Address e) e)"
    by simp
  also have "\<dots> = cache_set CACHE (Address e) e ++ ?M"
    by (rule Cons.IH)
  also have "\<dots> = CACHE ++ map_of (rev (map (\<lambda>e. (Address e, e)) (e # es)))"
    by (auto simp: cache_set_def fun_eq_iff map_add_def split: option.splits)
  finally show ?case .
qed





subsection \<open>Independence of the cache\<close>

text \<open>
  C10. \<open>sync\<close> never reads the cache: started from any two cache states, with the same
  input and the same services, it returns the same result (or fails with the same
  error) and its log is the same, so it calls the services and writes to the cache in
  the same sequence. The cache state only enters the cache that \<open>sync\<close> leaves.
\<close>

theorem sync_ignores_cache:
  "fst (sync sv emails CACHE1) = fst (sync sv emails CACHE2) \<and>
   fst (snd (sync sv emails CACHE1)) = fst (snd (sync sv emails CACHE2))"
  by (simp add: sync_def updateCache_def Let_def split: prod.splits sum.splits)

subsection \<open>Invalid addresses stay in the cache\<close>

lemma handleInvalid_validators:
  "handleInvalid (sv\<lparr>REGEX_EMAIL_test := f, checkTypoEmails := g, keyCache_isInvalid := h\<rparr>) m =
   handleInvalid sv m"
  by (simp add: handleInvalid_def handleInvalidSigs_def handleMissingPrimaryKeys_def)

lemma fold_cache_set_keeps:
  "CACHE A \<noteq> None \<Longrightarrow> fold (\<lambda>e C. cache_set C (Address e) e) es CACHE A \<noteq> None"
  by (simp add: fold_cache_set_eq)

lemma list_all2_right:
  "list_all2 P xs ys \<Longrightarrow> y \<in> set ys \<Longrightarrow> \<exists>x \<in> set xs. P x y"
  by (induction rule: list_all2_induct) auto

lemma list_all2_left:
  "list_all2 P xs ys \<Longrightarrow> x \<in> set xs \<Longrightarrow> \<exists>y \<in> set ys. P x y"
  by (induction rule: list_all2_induct) auto

text \<open>
  What \<open>sync\<close> does to the cache, for every address but \<^verbatim>\<open>__proto__\<close>. Let \<open>sync\<close>
  return a result, let \<^verbatim>\<open>extendPGP\<close> keep the \<^verbatim>\<open>Address\<close> of the recipient it
  extends, and let \<open>e\<close> be a recipient of the input whose address is not among the
  addresses to remove. Then the cache that \<open>sync\<close> leaves holds, under that address, the
  enriched record of a recipient with that address, whatever its \<^verbatim>\<open>invalid\<close> flag is:
  the flag is true exactly when the address fails the validator. An address that had a
  record before the call and is not among the addresses to remove still has one after
  it. Every address among the addresses to remove, other than \<^verbatim>\<open>__proto__\<close>, has no
  record after the call. The addresses to remove do not depend on the validator: with
  any other pattern, typo checker and key cache, a run that returns a result returns
  the same result.
\<close>

theorem sync_keeps_invalid:
  assumes "sync sv emails CACHE = (calls, Inr result, CACHE')"
      and "sendPreferences_get sv (map Address emails) = Inr m"
      and "e \<in> set emails"
      and "Address e \<notin> set (addressesToRemove result)"
      and "\<forall>x p x'. extendPGP sv x p = Inr x' \<longrightarrow> Address x' = Address x"
      and "invalid = (\<not> REGEX_EMAIL_test sv (Address e) \<or> checkTypoEmails sv (Address e) = Inr True \<or>
                      keyCache_isInvalid sv (Address e) = Inr True)"
  shows "(\<exists>e0 extended.
            e0 \<in> set emails \<and> Address e0 = Address e \<and>
            extendPGP sv e0 (map_of m (Address e0)) = Inr extended \<and>
            CACHE' (Address e) = Some (with_prop extended ''invalid'' (JBool invalid)) \<and>
            Address (with_prop extended ''invalid'' (JBool invalid)) = Address e) \<and>
         (\<forall>A. CACHE A \<noteq> None \<and> A \<notin> set (addressesToRemove result) \<longrightarrow> CACHE' A \<noteq> None) \<and>
         (\<forall>A. A \<in> set (addressesToRemove result) \<and> A \<noteq> ''__proto__'' \<longrightarrow> CACHE' A = None) \<and>
         (\<forall>f g h calls2 result2 CACHE2.
            sync (sv\<lparr>REGEX_EMAIL_test := f, checkTypoEmails := g, keyCache_isInvalid := h\<rparr>) emails CACHE =
              (calls2, Inr result2, CACHE2) \<longrightarrow> result2 = result)"
proof -
  from assms(1) obtain m' t1 inv t2 ext where
    get: "sendPreferences_get sv (map Address emails) = Inr m'"
    and policy: "handleInvalid sv m' = (t1, Inr inv)"
    and enrich: "extendAsync sv
          (filter (\<lambda>e. Address e \<notin> set (inv @ difference (map Address emails) (Object_keys m'))) emails) m' =
          (t2, Inr ext)"
    and result: "result = \<lparr>addressesToRemove = inv @ difference (map Address emails) (Object_keys m'),
                  failedAddresses = difference (map Address emails) (Object_keys m')\<rparr>"
    and cache: "CACHE' = snd (updateCache ext (inv @ difference (map Address emails) (Object_keys m')) CACHE)"
    by (subst (asm) sync_Inr_iff) blast
  from get assms(2) have m: "m' = m" by simp
  let ?toRemove = "inv @ difference (map Address emails) (Object_keys m)"
  let ?filtered = "filter (\<lambda>e. Address e \<notin> set ?toRemove) emails"
  let ?R = "\<lambda>e x. \<exists>extended. extendPGP sv e (map_of m (Address e)) = Inr extended \<and>
                      snd (extendInvalid sv extended) = Inr x"
  from result m have toRemove: "addressesToRemove result = ?toRemove" by simp
  from enrich m have "snd (extendAsync sv ?filtered m) = Inr ext" by simp
  then have rel: "list_all2 ?R ?filtered ext" by (rule extendAsync_Inr)
  have stored: "\<exists>e0 extended. e0 \<in> set emails \<and> Address e0 = Address x \<and>
      extendPGP sv e0 (map_of m (Address e0)) = Inr extended \<and>
      x = with_prop extended ''invalid''
            (JBool (\<not> REGEX_EMAIL_test sv (Address x) \<or> checkTypoEmails sv (Address x) = Inr True \<or>
                    keyCache_isInvalid sv (Address x) = Inr True))"
    if "x \<in> set ext" for x
  proof -
    from list_all2_right [OF rel that] obtain e0 extended where
      e0: "e0 \<in> set ?filtered" and pgp: "extendPGP sv e0 (map_of m (Address e0)) = Inr extended"
      and inv: "snd (extendInvalid sv extended) = Inr x"
      by blast
    from assms(5) [rule_format, OF pgp] have a: "Address extended = Address e0" .
    from extendInvalid_Inr [OF inv] have x: "x = with_prop extended ''invalid''
        (JBool (\<not> REGEX_EMAIL_test sv (Address extended) \<or>
                checkTypoEmails sv (Address extended) = Inr True \<or>
                keyCache_isInvalid sv (Address extended) = Inr True))" .
    then have "Address x = Address extended" by (simp add: with_prop_def)
    with a x e0 pgp show ?thesis by auto
  qed
  from assms(3,4) toRemove have "e \<in> set ?filtered" by simp
  from list_all2_left [OF rel this] obtain x0 extended0 where
    x0: "x0 \<in> set ext" and pgp0: "extendPGP sv e (map_of m (Address e)) = Inr extended0"
    and inv0: "snd (extendInvalid sv extended0) = Inr x0"
    by blast
  from extendInvalid_Inr [OF inv0] have "Address x0 = Address extended0"
    by (simp add: with_prop_def)
  with assms(5) [rule_format, OF pgp0] have "Address x0 = Address e" by simp
  with x0 have "\<exists>x \<in> set ext. Address x = Address e" by blast
  from split_list_last_prop [OF this] obtain before r after where
    ext: "ext = before @ r # after" and r: "Address r = Address e"
    and after: "\<forall>z \<in> set after. Address z \<noteq> Address e"
    by blast
  from after r have "Address r \<notin> Address ` set after" by force
  from fold_cache_set_last [OF this, of before CACHE] ext r
  have "fold (\<lambda>e C. cache_set C (Address e) e) ext CACHE (Address e) = Some r" by simp
  with assms(4) toRemove cache m have here: "CACHE' (Address e) = Some r"
    by (simp add: updateCache_def fold_cache_delete_other)
  from ext have "r \<in> set ext" by simp
  from stored [OF this] r assms(6) here have first:
    "\<exists>e0 extended.
        e0 \<in> set emails \<and> Address e0 = Address e \<and>
        extendPGP sv e0 (map_of m (Address e0)) = Inr extended \<and>
        CACHE' (Address e) = Some (with_prop extended ''invalid'' (JBool invalid)) \<and>
        Address (with_prop extended ''invalid'' (JBool invalid)) = Address e"
    by auto
  have second: "\<forall>A. CACHE A \<noteq> None \<and> A \<notin> set (addressesToRemove result) \<longrightarrow> CACHE' A \<noteq> None"
    using cache m toRemove
    by (simp add: updateCache_def fold_cache_delete_other fold_cache_set_keeps)
  have removed: "\<forall>A. A \<in> set (addressesToRemove result) \<and> A \<noteq> ''__proto__'' \<longrightarrow> CACHE' A = None"
  proof (intro allI impI)
    fix A
    assume "A \<in> set (addressesToRemove result) \<and> A \<noteq> ''__proto__''"
    with toRemove have A: "A \<in> set ?toRemove" "A \<noteq> ''__proto__''" by simp_all
    have "CACHE' A =
          fold cache_delete ?toRemove (fold (\<lambda>e C. cache_set C (Address e) e) ext CACHE) A"
      using cache m by (simp only: updateCache_def snd_conv)
    also have "\<dots> = None"
      using A by (rule fold_cache_delete_removed)
    finally show "CACHE' A = None" .
  qed
  have third: "\<forall>f g h calls2 result2 CACHE2.
      sync (sv\<lparr>REGEX_EMAIL_test := f, checkTypoEmails := g, keyCache_isInvalid := h\<rparr>) emails CACHE =
        (calls2, Inr result2, CACHE2) \<longrightarrow> result2 = result"
    using get policy result
    by (auto simp: sync_Inr_iff handleInvalid_validators)
  from first second removed third show ?thesis by blast
qed

text \<open>
  An example with all three kinds of address: \<^verbatim>\<open>bad\<close> is fetched and fails the
  pattern, \<^verbatim>\<open>pin@x.com\<close> is fetched but neither verified nor pinned and the user
  declines, \<^verbatim>\<open>gone@x.com\<close> is not fetched; all three and \<^verbatim>\<open>old@x.com\<close> have a
  record before the call.
\<close>

lemma example_run_mixed:
  "fst (snd (sync (example_services [(''bad'', trusted), (''pin@x.com'', untrusted)])
       [bare ''bad'', bare ''pin@x.com'', bare ''gone@x.com'']
       [''old@x.com'' \<mapsto> bare ''old@x.com'', ''bad'' \<mapsto> bare ''bad'',
        ''pin@x.com'' \<mapsto> bare ''pin@x.com'', ''gone@x.com'' \<mapsto> bare ''gone@x.com''])) =
   Inr \<lparr>addressesToRemove = [''pin@x.com'', ''pin@x.com'', ''gone@x.com''],
        failedAddresses = [''gone@x.com'']\<rparr>"
  by (simp add: model_defs example_defs)

theorem sync_keeps_invalid_witness:
  "snd (snd (sync (example_services [(''bad'', trusted), (''pin@x.com'', untrusted)])
       [bare ''bad'', bare ''pin@x.com'', bare ''gone@x.com'']
       [''old@x.com'' \<mapsto> bare ''old@x.com'', ''bad'' \<mapsto> bare ''bad'',
        ''pin@x.com'' \<mapsto> bare ''pin@x.com'', ''gone@x.com'' \<mapsto> bare ''gone@x.com''])) ''bad'' =
     Some (with_prop (with_prop (bare ''bad'') ''isPgp'' (JBool True)) ''invalid'' (JBool True)) \<and>
   snd (snd (sync (example_services [(''bad'', trusted), (''pin@x.com'', untrusted)])
       [bare ''bad'', bare ''pin@x.com'', bare ''gone@x.com'']
       [''old@x.com'' \<mapsto> bare ''old@x.com'', ''bad'' \<mapsto> bare ''bad'',
        ''pin@x.com'' \<mapsto> bare ''pin@x.com'', ''gone@x.com'' \<mapsto> bare ''gone@x.com''])) ''old@x.com'' \<noteq> None \<and>
   snd (snd (sync (example_services [(''bad'', trusted), (''pin@x.com'', untrusted)])
       [bare ''bad'', bare ''pin@x.com'', bare ''gone@x.com'']
       [''old@x.com'' \<mapsto> bare ''old@x.com'', ''bad'' \<mapsto> bare ''bad'',
        ''pin@x.com'' \<mapsto> bare ''pin@x.com'', ''gone@x.com'' \<mapsto> bare ''gone@x.com''])) ''pin@x.com'' = None \<and>
   snd (snd (sync (example_services [(''bad'', trusted), (''pin@x.com'', untrusted)])
       [bare ''bad'', bare ''pin@x.com'', bare ''gone@x.com'']
       [''old@x.com'' \<mapsto> bare ''old@x.com'', ''bad'' \<mapsto> bare ''bad'',
        ''pin@x.com'' \<mapsto> bare ''pin@x.com'', ''gone@x.com'' \<mapsto> bare ''gone@x.com''])) ''gone@x.com'' = None"
proof -
  let ?m = "[(''bad'', trusted), (''pin@x.com'', untrusted)]"
  let ?sv = "example_services ?m"
  let ?emails = "[bare ''bad'', bare ''pin@x.com'', bare ''gone@x.com'']"
  let ?CACHE = "[''old@x.com'' \<mapsto> bare ''old@x.com'', ''bad'' \<mapsto> bare ''bad'',
                 ''pin@x.com'' \<mapsto> bare ''pin@x.com'', ''gone@x.com'' \<mapsto> bare ''gone@x.com'']"
  let ?run = "sync ?sv ?emails ?CACHE"
  let ?result = "\<lparr>addressesToRemove = [''pin@x.com'', ''pin@x.com'', ''gone@x.com''],
                  failedAddresses = [''gone@x.com'']\<rparr>"
  have 2: "sendPreferences_get ?sv (map Address ?emails) = Inr ?m"
    by (simp add: example_defs)
  have 3: "bare ''bad'' \<in> set ?emails"
    by simp
  have 4: "Address (bare ''bad'') \<notin> set (addressesToRemove ?result)"
    by (simp add: bare_def)
  have 5: "\<forall>x p x'. extendPGP ?sv x p = Inr x' \<longrightarrow> Address x' = Address x"
    by (auto simp: example_defs with_prop_def)
  have 6: "True = (\<not> REGEX_EMAIL_test ?sv (Address (bare ''bad'')) \<or>
                   checkTypoEmails ?sv (Address (bare ''bad'')) = Inr True \<or>
                   keyCache_isInvalid ?sv (Address (bare ''bad'')) = Inr True)"
    by (simp add: example_defs)
  note kept = sync_keeps_invalid [OF run_collapse [OF example_run_mixed] 2 3 4 5 6]
  from kept obtain e0 extended where
    "e0 \<in> set ?emails" and "Address e0 = Address (bare ''bad'')"
    and "extendPGP ?sv e0 (map_of ?m (Address e0)) = Inr extended"
    and "snd (snd ?run) (Address (bare ''bad'')) = Some (with_prop extended ''invalid'' (JBool True))"
    by blast
  then have "snd (snd ?run) ''bad'' =
      Some (with_prop (with_prop (bare ''bad'') ''isPgp'' (JBool True)) ''invalid'' (JBool True))"
    by (auto simp: example_defs)
  moreover from kept have "snd (snd ?run) ''old@x.com'' \<noteq> None"
    by simp
  moreover from kept have "snd (snd ?run) ''pin@x.com'' = None"
    by simp
  moreover from kept have "snd (snd ?run) ''gone@x.com'' = None"
    by simp
  ultimately show ?thesis by blast
qed

text \<open>
  C8. The claim fails for the address \<^verbatim>\<open>__proto__\<close>, whose record \<open>sync\<close> does not
  remove. In the first run below the address is fetched, so \<open>updateCache\<close> executes
  \<^verbatim>\<open>CACHE['__proto__'] = email\<close>, which makes the record the prototype of \<^verbatim>\<open>CACHE\<close>.
  In the second run the fetch fails: the address is reported in \<open>failedAddresses\<close> and
  \<open>addressesToRemove\<close> and \<open>updateCache\<close> executes \<^verbatim>\<open>delete CACHE['__proto__']\<close>, but
  \<^verbatim>\<open>CACHE\<close> has no own property of that name. The record is still there after the
  call, and the lookup still answers from it, without \<^verbatim>\<open>loadCryptInfo\<close>.
\<close>

theorem sync_removal_skips_proto:
  "fst (snd (sync (example_services []) [bare ''__proto__'']
      (snd (snd (sync (example_services [(''__proto__'', trusted)]) [bare ''__proto__''] Map.empty))))) =
     Inr \<lparr>addressesToRemove = [''__proto__''], failedAddresses = [''__proto__'']\<rparr> \<and>
   CacheDelete ''__proto__'' \<in> set (fst (sync (example_services []) [bare ''__proto__'']
      (snd (snd (sync (example_services [(''__proto__'', trusted)]) [bare ''__proto__''] Map.empty))))) \<and>
   snd (snd (sync (example_services []) [bare ''__proto__'']
      (snd (snd (sync (example_services [(''__proto__'', trusted)]) [bare ''__proto__''] Map.empty)))))
      ''__proto__'' =
     Some (with_prop (with_prop (bare ''__proto__'') ''isPgp'' (JBool True)) ''invalid'' (JBool True)) \<and>
   props (extendFromCache
      (snd (snd (sync (example_services []) [bare ''__proto__'']
         (snd (snd (sync (example_services [(''__proto__'', trusted)]) [bare ''__proto__''] Map.empty))))))
      [bare ''__proto__''] ! 0) ''loadCryptInfo'' = None \<and>
   props (extendFromCache
      (snd (snd (sync (example_services []) [bare ''__proto__'']
         (snd (snd (sync (example_services [(''__proto__'', trusted)]) [bare ''__proto__''] Map.empty))))))
      [bare ''__proto__''] ! 0) ''isPgp'' = Some (JBool True)"
proof -
  let ?stored = "with_prop (with_prop (bare ''__proto__'') ''isPgp'' (JBool True)) ''invalid'' (JBool True)"
  have first: "snd (snd (sync (example_services [(''__proto__'', trusted)]) [bare ''__proto__''] Map.empty)) =
      [''__proto__'' \<mapsto> ?stored]"
    by (simp add: model_defs example_defs)
  have second: "sync (example_services []) [bare ''__proto__''] [''__proto__'' \<mapsto> ?stored] =
      ([SendPreferencesGet [''__proto__''], CacheDelete ''__proto__''],
       Inr \<lparr>addressesToRemove = [''__proto__''], failedAddresses = [''__proto__'']\<rparr>,
       [''__proto__'' \<mapsto> ?stored])"
    by (simp add: model_defs example_defs)
  have lookup: "props (extendFromCache [''__proto__'' \<mapsto> ?stored] [bare ''__proto__''] ! 0) =
      props ?stored ++ props (bare ''__proto__'')"
    by (simp add: extendFromCache_nth cache_get_stored props_spread_over bare_def)
  have flag: "props (extendFromCache [''__proto__'' \<mapsto> ?stored] [bare ''__proto__''] ! 0)
      ''loadCryptInfo'' = None"
    and pgp: "props (extendFromCache [''__proto__'' \<mapsto> ?stored] [bare ''__proto__''] ! 0)
      ''isPgp'' = Some (JBool True)"
    unfolding lookup by (simp_all add: props_def with_prop_def bare_def map_add_def)
  show ?thesis
    unfolding first by (simp add: second flag pgp)
qed

subsection \<open>Further facts about the addresses to remove\<close>

lemma handleInvalidSigs_keys:
  "handleInvalidSigs sv m = (calls, Inr xs) \<Longrightarrow> set xs \<subseteq> set (Object_keys m)"
  by (cases "autoPinPrimaryKeys_resign sv (map fst (filter (\<lambda>(adr, p). \<not> isVerified p) m))")
     (auto simp: handleInvalidSigs_def toPairs_def ret_def Let_def Object_keys_def
        split: if_splits)

lemma handleMissingPrimaryKeys_keys:
  "handleMissingPrimaryKeys sv m = (calls, Inr xs) \<Longrightarrow> set xs \<subseteq> set (Object_keys m)"
  by (cases "autoPinPrimaryKeys_confirm sv (map fst (filter (\<lambda>(adr, p). \<not> primaryPinned p) m))")
     (auto simp: handleMissingPrimaryKeys_def toPairs_def ret_def Let_def Object_keys_def
        split: if_splits)

lemma handleInvalid_keys:
  assumes "handleInvalid sv m = (calls, Inr xs)"
  shows "set xs \<subseteq> set (Object_keys m)"
proof -
  obtain c1 r1 where sigs: "handleInvalidSigs sv m = (c1, r1)"
    by (cases "handleInvalidSigs sv m")
  obtain c2 r2 where keys: "handleMissingPrimaryKeys sv m = (c2, r2)"
    by (cases "handleMissingPrimaryKeys sv m")
  from assms sigs keys obtain s k where "r1 = Inr s" "r2 = Inr k" "xs = s @ k"
    by (cases r1; cases r2) (auto simp: handleInvalid_def ret_def)
  with sigs keys handleInvalidSigs_keys [of sv m c1 s] handleMissingPrimaryKeys_keys [of sv m c2 k]
  show ?thesis by auto
qed

text \<open>
  The two lists that make up \<open>addressesToRemove\<close> never share an address: the policy
  resolver only returns keys of the preference map, and the failed addresses are the
  requested addresses that are not keys of it. An address occurs more than once only
  when it is repeated in the input or fails both policy checks.
\<close>

lemma sync_lists_disjoint:
  assumes "sync sv emails CACHE = (calls, Inr result, CACHE')"
      and "sendPreferences_get sv (map Address emails) = Inr m"
      and "handleInvalid sv m = (calls', Inr invalidAddresses)"
  shows "set invalidAddresses \<inter> set (failedAddresses result) = {}"
proof -
  from assms(1,2) have "failedAddresses result = difference (map Address emails) (Object_keys m)"
    by (auto simp: sync_Inr_iff)
  with handleInvalid_keys [OF assms(3)] show ?thesis
    by (auto simp: difference_def)
qed

text \<open>
  Inside \<open>sync\<close>, \<^verbatim>\<open>sendPreferencesMap[email.Address]\<close> always reads an own property of
  the map: a recipient that is not removed has an address that is a key of the map.
\<close>

lemma sync_lookup_own:
  assumes "e \<in> set emails"
      and "Address e \<notin> set (invalidAddresses @ difference (map Address emails) (Object_keys m))"
  shows "map_of m (Address e) \<noteq> None"
proof -
  from assms have "Address e \<in> set (Object_keys m)"
    by (auto simp: difference_def)
  then show ?thesis
    by (simp add: Object_keys_def map_of_eq_None_iff)
qed

end
